theory Spec2Isabelle
  imports Complex_Main "HOL-Library.AList"
begin

section \<open>Tuning Fork histogram (src/src/tuningfork/histogram.cpp)\<close>

text \<open>
  The functions of the class are modelled from histogram.cpp. The class declaration
  (histogram.h) is not among the sources; what it declares is taken as follows.

  \<^item> \<open>Sample\<close> is a floating-point type. Samples and range bounds are modelled as real
    numbers: arithmetic is exact, and rounding, infinities and NaN are not represented.
    Where the floating-point result would be an infinity or a NaN (a division by zero),
    or where C++ leaves the behaviour undefined (a float-to-int conversion whose value does
    not fit \<open>int\<close>, a signed overflow, an index outside a vector), the model returns
    \<open>None\<close>.
  \<^item> The bucket counters and \<open>count_\<close> are natural numbers without an upper bound.
  \<^item> \<open>kDefaultNumBuckets\<close>, \<open>kAutoSizeNumStdDev\<close> and \<open>kAutoSizeMinBucketSizeMs\<close>
    are parameters, collected in the record \<open>hist_consts\<close>.
\<close>

datatype Mode = HISTOGRAM | AUTO_RANGE | EVENTS_ONLY

text \<open>
  Modelled from the spec: the three constants of the class, declared in histogram.h. The
  specification names a default bucket count, the constant \<open>k\<close> of \<open>mean +- k * stddev\<close> and
  a minimum bucket width, without fixing their values.
\<close>

record hist_consts =
  kDefaultNumBuckets :: nat
  kAutoSizeNumStdDev :: real
  kAutoSizeMinBucketSizeMs :: real

text \<open>
  Modelled from the spec: the data members of the class, declared in histogram.h. The names
  are those histogram.cpp uses (without the trailing underscore); the specification gives
  the bounds and the bucket width as floating-point milliseconds, the buckets as a
  sequence of unsigned counts of length \<open>num_buckets\<close>, and the count as the number of samples
  added. \<open>samples_capacity\<close> is the capacity of the vector \<open>samples_\<close>.
\<close>

record histogram =
  mode :: Mode
  start_ms :: real
  end_ms :: real
  bucket_dt_ms :: real
  num_buckets :: int
  buckets :: "nat list"
  samples :: "real list"
  samples_capacity :: nat
  count :: nat
  next_event_index :: nat

subsection \<open>Constructor\<close>

text \<open>The divisor of the bucket-width division in the member initialiser list.\<close>

definition bucket_divisor :: "int \<Rightarrow> int" where
  "bucket_divisor num_buckets_between =
     (if num_buckets_between \<le> 0 then 1 else num_buckets_between)"

definition initial_mode :: "real \<Rightarrow> real \<Rightarrow> bool \<Rightarrow> Mode" where
  "initial_mode start end never_bucket =
     (if never_bucket then EVENTS_ONLY
      else if start = 0 \<and> end = 0 then AUTO_RANGE else HISTOGRAM)"

definition initial_num_buckets :: "hist_consts \<Rightarrow> int \<Rightarrow> int" where
  "initial_num_buckets c num_buckets_between =
     (if num_buckets_between \<le> 0 then int (kDefaultNumBuckets c)
      else num_buckets_between + 2)"

text \<open>
  \<open>Histogram::Histogram\<close>. \<open>samples_.reserve(n)\<close> leaves the vector empty with capacity
  \<open>n\<close> (the standard allows a larger capacity; libc++ and libstdc++ allocate exactly
  \<open>n\<close> for an empty vector); \<open>samples_.resize(n)\<close> fills it with \<open>n\<close> zeros. The
  \<open>ALOGE\<close> of the HISTOGRAM case only writes to the log. The member initialisers are
  taken in the order in which they are written.
\<close>

definition Histogram :: "hist_consts \<Rightarrow> real \<Rightarrow> real \<Rightarrow> int \<Rightarrow> bool \<Rightarrow> histogram" where
  "Histogram c start end num_buckets_between never_bucket =
     (let m = initial_mode start end never_bucket;
          n = initial_num_buckets c num_buckets_between
      in \<lparr> mode = m,
           start_ms = start,
           end_ms = end,
           bucket_dt_ms = (end - start) / real_of_int (bucket_divisor num_buckets_between),
           num_buckets = n,
           buckets = replicate (nat n) 0,
           samples = (case m of
                        HISTOGRAM \<Rightarrow> []
                      | AUTO_RANGE \<Rightarrow> []
                      | EVENTS_ONLY \<Rightarrow> replicate (nat n) 0),
           samples_capacity = (case m of
                        HISTOGRAM \<Rightarrow> 0
                      | AUTO_RANGE \<Rightarrow> nat n
                      | EVENTS_ONLY \<Rightarrow> nat n),
           count = 0,
           next_event_index = 0 \<rparr>)"

subsection \<open>Add\<close>

text \<open>
  The conversion of a floating-point value to \<open>int\<close> (32 bits) discards the fractional
  part, that is, it rounds towards zero; it is undefined when the result does not fit.
\<close>

definition float_to_int :: "real \<Rightarrow> int option" where
  "float_to_int x =
     (let t = (if x < 0 then - \<lfloor>- x\<rfloor> else \<lfloor>x\<rfloor>)
      in if - (2 ^ 31) \<le> t \<and> t < 2 ^ 31 then Some t else None)"

text \<open>\<open>int i = (dt_ms - start_ms_) / bucket_dt_ms_;\<close>\<close>

definition bucket_index :: "histogram \<Rightarrow> real \<Rightarrow> int option" where
  "bucket_index h dt_ms =
     (if bucket_dt_ms h = 0 then None
      else float_to_int ((dt_ms - start_ms h) / bucket_dt_ms h))"

text \<open>\<open>buckets_[j]++\<close>\<close>

definition incr_bucket :: "histogram \<Rightarrow> int \<Rightarrow> histogram option" where
  "incr_bucket h j =
     (if 0 \<le> j \<and> nat j < length (buckets h)
      then Some (h\<lparr>buckets := (buckets h)[nat j := buckets h ! nat j + 1]\<rparr>)
      else None)"

text \<open>
  The case \<open>Mode::HISTOGRAM\<close> of the switch in \<open>Histogram::Add\<close>. \<open>target_bucket\<close>
  is the index that the if-chain selects; \<open>i + 1\<close> overflows when \<open>i\<close> is the largest
  \<open>int\<close>.
\<close>

definition target_bucket :: "histogram \<Rightarrow> real \<Rightarrow> int option" where
  "target_bucket h dt_ms =
     (case bucket_index h dt_ms of
        None \<Rightarrow> None
      | Some i \<Rightarrow>
          if i < 0 then Some 0
          else if 2 ^ 31 \<le> i + 1 then None
          else if i + 1 \<ge> num_buckets h then Some (num_buckets h - 1)
          else Some (i + 1))"

definition Add_case_HISTOGRAM :: "histogram \<Rightarrow> real \<Rightarrow> histogram option" where
  "Add_case_HISTOGRAM h dt_ms =
     (case target_bucket h dt_ms of
        None \<Rightarrow> None
      | Some j \<Rightarrow> incr_bucket h j)"

text \<open>The case \<open>Mode::EVENTS_ONLY\<close> of the switch.\<close>

definition Add_case_EVENTS_ONLY :: "histogram \<Rightarrow> real \<Rightarrow> histogram option" where
  "Add_case_EVENTS_ONLY h dt_ms =
     (if next_event_index h < length (samples h)
      then (let s = (samples h)[next_event_index h := dt_ms];
                i = next_event_index h + 1
            in Some (h\<lparr>samples := s,
                       next_event_index := (if i \<ge> length s then 0 else i)\<rparr>))
      else None)"

text \<open>\<open>++count_;\<close>, the last statement of \<open>Add\<close>.\<close>

definition incr_count :: "histogram \<Rightarrow> histogram" where
  "incr_count h = h\<lparr>count := count h + 1\<rparr>"

text \<open>
  \<open>Add\<close> called on a histogram whose mode is HISTOGRAM: the switch takes the HISTOGRAM
  case and the count is incremented. \<open>CalcBucketsFromSamples\<close> calls \<open>Add\<close> only after
  it has set the mode to HISTOGRAM, so this is the function its replay loop runs; the
  recursion between the two C++ functions is one level deep.
\<close>

definition Add_bucketed :: "histogram \<Rightarrow> real \<Rightarrow> histogram option" where
  "Add_bucketed h dt_ms = map_option incr_count (Add_case_HISTOGRAM h dt_ms)"

text \<open>\<open>for (Sample d: samples_) Add(d);\<close>\<close>

fun replay :: "histogram \<Rightarrow> real list \<Rightarrow> histogram option" where
  "replay h [] = Some h"
| "replay h (d # ds) =
     (case Add_bucketed h d of None \<Rightarrow> None | Some h' \<Rightarrow> replay h' ds)"

text \<open>
  The accumulation loop of \<open>CalcBucketsFromSamples\<close>: the pair is \<open>(sum, sum2)\<close>,
  written \<open>(sum1, sum2)\<close>.
  The loop also tracks \<open>min_dt\<close> and \<open>max_dt\<close>, which nothing reads afterwards.
\<close>

definition sample_sums :: "real list \<Rightarrow> real \<times> real" where
  "sample_sums ds = fold (\<lambda>d. \<lambda>(sum1, sum2). (sum1 + d, sum2 + d * d)) ds (0, 0)"

text \<open>
  The range that \<open>CalcBucketsFromSamples\<close> derives from the buffered samples:
  \<open>(start_ms_, end_ms_, bucket_dt_ms_)\<close>. The two divisions are by the number of samples
  and by \<open>num_buckets_ - 2\<close>.
\<close>

definition auto_range :: "hist_consts \<Rightarrow> int \<Rightarrow> real list \<Rightarrow> (real \<times> real \<times> real) option" where
  "auto_range c nb ds =
     (if length ds = 0 \<or> nb - 2 = 0 then None
      else
        let (sum1, sum2) = sample_sums ds;
            n = real (length ds);
            mean = sum1 / n;
            var0 = sum2 / n - mean * mean;
            var = (if var0 < 0 then 0 else var0);
            stddev = sqrt var;
            start1 = max (mean - kAutoSizeNumStdDev c * stddev) 0;
            end1 = mean + kAutoSizeNumStdDev c * stddev;
            dt1 = (end1 - start1) / real_of_int (nb - 2)
        in if dt1 < kAutoSizeMinBucketSizeMs c
           then (let dt2 = kAutoSizeMinBucketSizeMs c;
                     w = dt2 * real_of_int (nb - 2)
                 in Some (mean - w / 2, mean + w / 2, dt2))
           else Some (start1, end1, dt1))"

definition CalcBucketsFromSamples :: "hist_consts \<Rightarrow> histogram \<Rightarrow> histogram option" where
  "CalcBucketsFromSamples c h =
     (if mode h \<noteq> AUTO_RANGE then Some h
      else case auto_range c (num_buckets h) (samples h) of
             None \<Rightarrow> None
           | Some (s, e, dt) \<Rightarrow>
               replay (h\<lparr>start_ms := s, end_ms := e, bucket_dt_ms := dt,
                         mode := HISTOGRAM, count := 0\<rparr>) (samples h))"

text \<open>
  \<open>samples_.push_back(dt_ms)\<close>: a full vector grows first (libc++ doubles the capacity,
  with a minimum of one).
\<close>

definition push_back :: "histogram \<Rightarrow> real \<Rightarrow> histogram" where
  "push_back h dt_ms =
     h\<lparr>samples := samples h @ [dt_ms],
       samples_capacity :=
         (if length (samples h) = samples_capacity h
          then max 1 (2 * samples_capacity h) else samples_capacity h)\<rparr>"

text \<open>The case \<open>Mode::AUTO_RANGE\<close> of the switch.\<close>

definition Add_case_AUTO_RANGE :: "hist_consts \<Rightarrow> histogram \<Rightarrow> real \<Rightarrow> histogram option" where
  "Add_case_AUTO_RANGE c h dt_ms =
     (let h1 = push_back h dt_ms
      in if length (samples h1) = samples_capacity h1
         then CalcBucketsFromSamples c h1 else Some h1)"

text \<open>\<open>Histogram::Add\<close>\<close>

definition Add :: "hist_consts \<Rightarrow> histogram \<Rightarrow> real \<Rightarrow> histogram option" where
  "Add c h dt_ms =
     map_option incr_count
       (case mode h of
          HISTOGRAM \<Rightarrow> Add_case_HISTOGRAM h dt_ms
        | AUTO_RANGE \<Rightarrow> Add_case_AUTO_RANGE c h dt_ms
        | EVENTS_ONLY \<Rightarrow> Add_case_EVENTS_ONLY h dt_ms)"

text \<open>A sequence of \<open>Add\<close> calls, stopping where one is undefined.\<close>

fun Adds :: "hist_consts \<Rightarrow> histogram \<Rightarrow> real list \<Rightarrow> histogram option" where
  "Adds c h [] = Some h"
| "Adds c h (d # ds) = (case Add c h d of None \<Rightarrow> None | Some h' \<Rightarrow> Adds c h' ds)"

subsection \<open>Clear and AddCounts\<close>

definition Clear :: "histogram \<Rightarrow> histogram" where
  "Clear h =
     (let h1 = h\<lparr>buckets := map (\<lambda>_. 0) (buckets h)\<rparr>;
          h2 = (if mode h1 = EVENTS_ONLY
                then h1\<lparr>samples := map (\<lambda>_. 0) (samples h1), next_event_index := 0\<rparr>
                else h1\<lparr>samples := []\<rparr>)
      in h2\<lparr>count := 0\<rparr>)"

datatype TFErrorCode = TFERROR_OK | TFERROR_BAD_PARAMETER

text \<open>
  \<open>Histogram::AddCounts\<close>: the argument is a \<open>std::vector<uint32_t>\<close>, each entry is
  added to the bucket at the same position.
\<close>

definition AddCounts :: "histogram \<Rightarrow> nat list \<Rightarrow> TFErrorCode \<times> histogram" where
  "AddCounts h counts =
     (if length counts \<noteq> length (buckets h) then (TFERROR_BAD_PARAMETER, h)
      else (TFERROR_OK, h\<lparr>buckets := map (\<lambda>(c_orig, c). c_orig + c) (zip (buckets h) counts)\<rparr>))"

subsection \<open>Invariant of a histogram constructed in AUTO_RANGE mode\<close>

text \<open>
  Before the transition no bucket has been incremented; after it the count is one more
  than the sum of the buckets.
\<close>

definition auto_range_inv :: "histogram \<Rightarrow> bool" where
  "auto_range_inv h \<longleftrightarrow>
     (mode h = AUTO_RANGE \<and> sum_list (buckets h) = 0)
     \<or> (mode h = HISTOGRAM \<and> count h = sum_list (buckets h) + 1)"

subsection \<open>ToDebugJSON\<close>

text \<open>
  \<open>ToDebugJSON\<close> writes to a string stream with \<open>precision(2)\<close> and \<open>std::fixed\<close>.
  The stream's formatting of a \<open>Sample\<close> is the parameter \<open>fmt\<close>; a bucket counter is
  written in decimal (\<open>show_nat\<close>). \<open>pmax_values\<close> lists the values that the variable
  \<open>x\<close> of the second loop takes; \<open>pmax_loop\<close> is that loop. Reading \<open>buckets_[i]\<close>
  outside the vector, or \<open>back()\<close> of an empty vector, gives \<open>None\<close>.
\<close>

fun show_nat :: "nat \<Rightarrow> string" where
  "show_nat n =
     (if n < 10 then [''0123456789'' ! n]
      else show_nat (n div 10) @ [''0123456789'' ! (n mod 10)])"

declare show_nat.simps [simp del]

fun events_loop :: "(real \<Rightarrow> string) \<Rightarrow> real list \<Rightarrow> bool \<Rightarrow> string" where
  "events_loop fmt [] first = []"
| "events_loop fmt (x # xs) first =
     (if \<not> first then '','' else []) @ fmt x @ events_loop fmt xs False"

fun pmax_values :: "nat \<Rightarrow> real \<Rightarrow> real \<Rightarrow> real list" where
  "pmax_values 0 x dt = []"
| "pmax_values (Suc k) x dt = x # pmax_values k (x + dt) dt"

fun pmax_loop :: "(real \<Rightarrow> string) \<Rightarrow> nat \<Rightarrow> real \<Rightarrow> real \<Rightarrow> string" where
  "pmax_loop fmt 0 x dt = []"
| "pmax_loop fmt (Suc k) x dt = fmt x @ '','' @ pmax_loop fmt k (x + dt) dt"

fun cnts_loop :: "nat list \<Rightarrow> nat \<Rightarrow> nat \<Rightarrow> string option" where
  "cnts_loop b i 0 = Some []"
| "cnts_loop b i (Suc k) =
     (if i < length b
      then map_option (\<lambda>rest. show_nat (b ! i) @ '','' @ rest) (cnts_loop b (Suc i) k)
      else None)"

definition ToDebugJSON :: "(real \<Rightarrow> string) \<Rightarrow> histogram \<Rightarrow> string option" where
  \<open>ToDebugJSON fmt h =
     (if mode h \<noteq> HISTOGRAM
      then Some (''{"events":['' @ events_loop fmt (samples h) True @ '']}'')
      else
        case cnts_loop (buckets h) 0 (nat (num_buckets h - 1)) of
          None \<Rightarrow> None
        | Some cnts \<Rightarrow>
            if num_buckets h > 0 \<and> buckets h = [] then None
            else Some (''{"pmax":[''
                       @ pmax_loop fmt (nat (num_buckets h - 1)) (start_ms h) (bucket_dt_ms h)
                       @ ''99999],"cnts":['' @ cnts
                       @ (if num_buckets h > 0 then show_nat (last (buckets h)) else [])
                       @ '']}''))\<close>

text \<open>
  The output as the specification words it: the listed elements separated by commas.
\<close>

fun join :: "string list \<Rightarrow> string" where
  "join [] = []"
| "join [x] = x"
| "join (x # y # ys) = x @ '','' @ join (y # ys)"

definition spec_events_json :: "(real \<Rightarrow> string) \<Rightarrow> real list \<Rightarrow> string" where
  \<open>spec_events_json fmt xs = ''{"events":['' @ join (map fmt xs) @ '']}''\<close>

definition spec_bounds :: "histogram \<Rightarrow> real list" where
  "spec_bounds h =
     map (\<lambda>i. start_ms h + real i * bucket_dt_ms h) [0 ..< nat (num_buckets h - 1)]"

definition spec_buckets_json :: "(real \<Rightarrow> string) \<Rightarrow> histogram \<Rightarrow> string" where
  \<open>spec_buckets_json fmt h =
     ''{"pmax":['' @ join (map fmt (spec_bounds h) @ [''99999''])
     @ ''],"cnts":['' @ join (map show_nat (buckets h)) @ '']}''\<close>

subsection \<open>Relations used for Clear\<close>

text \<open>
  Two histograms in HISTOGRAM mode that select and hold the same buckets; and an
  AUTO_RANGE buffer that the next \<open>push_back\<close> does not reallocate before the transition.
\<close>

definition same_bucketing :: "histogram \<Rightarrow> histogram \<Rightarrow> bool" where
  "same_bucketing a b \<longleftrightarrow>
     mode a = HISTOGRAM \<and> mode b = HISTOGRAM \<and> start_ms a = start_ms b
     \<and> bucket_dt_ms a = bucket_dt_ms b \<and> num_buckets a = num_buckets b
     \<and> buckets a = buckets b \<and> count a = count b"

definition buffering :: "histogram \<Rightarrow> bool" where
  "buffering h \<longleftrightarrow>
     length (samples h) < samples_capacity h \<or> (samples_capacity h = 0 \<and> samples h = [])"

subsection \<open>The range of an auto-ranged histogram, as the specification words it\<close>




section \<open>Swappy for Vulkan (src/games-frame-pacing/vulkan/SwappyVk.cpp)\<close>

text \<open>
  Vulkan handles are opaque; they are modelled as natural numbers. The three result codes
  have the values of the Vulkan headers. The two \<open>std::map\<close> members are association lists
  (the order of the entries plays no role below); a mapped value of
  \<open>perSwapchainImplementation\<close> is a shared pointer, \<open>None\<close> when it is null. The type
  \<open>'i\<close> stands for the implementation objects (\<open>SwappyVkBase\<close>), whose class is not among
  the sources; their virtual \<open>doQueuePresent\<close> and their \<open>getDevice\<close> are parameters.
\<close>

type_synonym VkQueue = nat
type_synonym VkDevice = nat
type_synonym VkSwapchainKHR = nat
type_synonym VkResult = int

definition VK_SUCCESS :: VkResult where "VK_SUCCESS = 0"
definition VK_INCOMPLETE :: VkResult where "VK_INCOMPLETE = 5"
definition VK_ERROR_DEVICE_LOST :: VkResult where "VK_ERROR_DEVICE_LOST = - 4"

record QueueFamilyIndex =
  device :: VkDevice
  queueFamilyIndex :: nat

record VkPresentInfoKHR =
  swapchainCount :: nat
  pSwapchains :: "VkSwapchainKHR list option"

record 'i SwappyVk =
  perQueueFamilyIndex :: "(VkQueue \<times> QueueFamilyIndex) list"
  perSwapchainImplementation :: "(VkSwapchainKHR \<times> 'i option) list"

text \<open>
  \<open>std::map::operator[]\<close>: the entry for the key is created with a default value when the
  map has none.
\<close>

definition subscript :: "('k \<times> 'v) list \<Rightarrow> 'k \<Rightarrow> 'v \<Rightarrow> ('k \<times> 'v) list" where
  "subscript m k dflt = (case map_of m k of None \<Rightarrow> m @ [(k, dflt)] | Some _ \<Rightarrow> m)"

definition SetQueueFamilyIndex ::
  "'i SwappyVk \<Rightarrow> VkDevice \<Rightarrow> VkQueue \<Rightarrow> nat \<Rightarrow> 'i SwappyVk" where
  "SetQueueFamilyIndex s dev queue idx =
     s\<lparr>perQueueFamilyIndex :=
         AList.update queue \<lparr>device = dev, queueFamilyIndex = idx\<rparr>
           (subscript (perQueueFamilyIndex s) queue \<lparr>device = 0, queueFamilyIndex = 0\<rparr>)\<rparr>"

text \<open>
  \<open>SwappyVk::QueuePresent\<close>. \<open>*pPresentInfo->pSwapchains\<close> reads the first element of the
  array; with a positive count and an empty array the read is outside the array.
\<close>

definition QueuePresent ::
  "('i \<Rightarrow> VkQueue \<Rightarrow> nat \<Rightarrow> VkPresentInfoKHR \<Rightarrow> VkResult \<times> 'i)
     \<Rightarrow> 'i SwappyVk \<Rightarrow> VkQueue \<Rightarrow> VkPresentInfoKHR \<Rightarrow> (VkResult \<times> 'i SwappyVk) option" where
  "QueuePresent doQueuePresent s queue pPresentInfo =
     (case map_of (perQueueFamilyIndex s) queue of
        None \<Rightarrow> Some (VK_INCOMPLETE, s)
      | Some qfi \<Rightarrow>
          if swapchainCount pPresentInfo = 0 \<or> pSwapchains pPresentInfo = None
          then Some (VK_ERROR_DEVICE_LOST, s)
          else
            (case pSwapchains pPresentInfo of
               Some (swapchain # _) \<Rightarrow>
                 (let impls = subscript (perSwapchainImplementation s) swapchain None;
                      s1 = s\<lparr>perSwapchainImplementation := impls\<rparr>
                  in case map_of impls swapchain of
                       Some (Some impl) \<Rightarrow>
                         (let (r, impl') =
                                doQueuePresent impl queue (queueFamilyIndex qfi) pPresentInfo
                          in Some (r, s1\<lparr>perSwapchainImplementation :=
                                          AList.update swapchain (Some impl') impls\<rparr>))
                     | _ \<Rightarrow> Some (VK_ERROR_DEVICE_LOST, s1))
             | _ \<Rightarrow> None))"

text \<open>
  \<open>SwappyVk::DestroyDevice\<close>: the first loop calls \<open>it->second->getDevice()\<close> on every
  entry, which dereferences a null pointer when the entry holds one.
\<close>

fun erase_swapchains ::
  "('i \<Rightarrow> VkDevice) \<Rightarrow> VkDevice \<Rightarrow> (VkSwapchainKHR \<times> 'i option) list
     \<Rightarrow> (VkSwapchainKHR \<times> 'i option) list option" where
  "erase_swapchains getDevice dev [] = Some []"
| "erase_swapchains getDevice dev ((sc, None) # rest) = None"
| "erase_swapchains getDevice dev ((sc, Some impl) # rest) =
     (if getDevice impl = dev then erase_swapchains getDevice dev rest
      else map_option (\<lambda>r. (sc, Some impl) # r) (erase_swapchains getDevice dev rest))"

definition DestroyDevice ::
  "('i \<Rightarrow> VkDevice) \<Rightarrow> 'i SwappyVk \<Rightarrow> VkDevice \<Rightarrow> 'i SwappyVk option" where
  "DestroyDevice getDevice s dev =
     (case erase_swapchains getDevice dev (perSwapchainImplementation s) of
        None \<Rightarrow> None
      | Some impls \<Rightarrow>
          Some (s\<lparr>perSwapchainImplementation := impls,
                  perQueueFamilyIndex :=
                    filter (\<lambda>(q, qfi). device qfi \<noteq> dev) (perQueueFamilyIndex s)\<rparr>))"

definition SwappyVk_initial :: "'i SwappyVk" where
  "SwappyVk_initial = \<lparr>perQueueFamilyIndex = [], perSwapchainImplementation = []\<rparr>"

section \<open>Swappy for OpenGL (src/games-frame-pacing/opengl/SwappyGL.cpp)\<close>

text \<open>
  The functions of \<open>SwappyGL\<close> are modelled from SwappyGL.cpp. \<open>SwappyCommon\<close>, \<open>EGL\<close>
  and the header of \<open>SwappyGL\<close> are not among the sources. \<open>mEgl\<close> records whether the
  pointer is non-null. The calls that \<open>swap\<close> makes to the platform and to
  \<open>SwappyCommon\<close> are recorded in a list; their results are the fields of \<open>platform\<close>.
\<close>

text \<open>
  Modelled from the spec: the state of \<open>SwappyCommon\<close>, of which only the flag that
  \<open>enableFramePacing\<close> sets is kept (the specification's "pacing disabled").
\<close>

record SwappyCommon =
  mFramePacingEnabled :: bool

record SwappyGL =
  mEnableSwappy :: bool
  mEgl :: bool
  mCommonBase :: SwappyCommon

datatype call =
  InsertSyncFence | OnPreSwap | EglSetPresentationTime | SwapBuffers | OnPostSwap

record platform =
  swapBuffers_returns_EGL_TRUE :: bool
  needToSetPresentationTime :: bool
  tooCloseToVsync :: bool
  eglSetPresentationTime_result :: bool

definition SwappyGL_ctor :: "bool \<Rightarrow> bool \<Rightarrow> bool \<Rightarrow> SwappyGL" where
  "SwappyGL_ctor egl_created common_valid disable_prop =
     \<lparr>mEnableSwappy =
        (if \<not> egl_created then False
         else if \<not> common_valid then False
         else \<not> disable_prop),
      mEgl = egl_created,
      mCommonBase = \<lparr>mFramePacingEnabled = True\<rparr>\<rparr>"

definition SwappyGL_init ::
  "SwappyGL option \<Rightarrow> bool \<Rightarrow> bool \<Rightarrow> bool \<Rightarrow> bool \<times> SwappyGL option" where
  "SwappyGL_init sInstance egl_created common_valid disable_prop =
     (case sInstance of
        Some sw \<Rightarrow> (False, sInstance)
      | None \<Rightarrow>
          (let sw = SwappyGL_ctor egl_created common_valid disable_prop
           in (mEnableSwappy sw, Some sw)))"

text \<open>
  Modelled from the spec: \<open>SwappyGL::enabled()\<close>, declared in SwappyGL.h. It returns
  \<open>mEnableSwappy\<close>: the constructor assigns \<open>mEnableSwappy\<close> and logs "Swappy is
  disabled" when \<open>enabled()\<close> is false, and \<open>init\<close> reports failure on
  \<open>!mEnableSwappy\<close>.
\<close>

definition enabled :: "SwappyGL \<Rightarrow> bool" where
  "enabled sw = mEnableSwappy sw"

definition enableFramePacing :: "SwappyGL option \<Rightarrow> bool \<Rightarrow> SwappyGL option" where
  "enableFramePacing sInstance enable =
     (case sInstance of
        None \<Rightarrow> None
      | Some sw \<Rightarrow> Some (sw\<lparr>mCommonBase := (mCommonBase sw)\<lparr>mFramePacingEnabled := enable\<rparr>\<rparr>))"

definition setPresentationTime :: "platform \<Rightarrow> bool \<times> call list" where
  "setPresentationTime p =
     (if tooCloseToVsync p then (True, [])
      else (eglSetPresentationTime_result p, [EglSetPresentationTime]))"

definition swapInternal :: "platform \<Rightarrow> SwappyGL \<Rightarrow> (bool \<times> call list) option" where
  "swapInternal p sw =
     (if \<not> mEgl sw then None
      else
        let t1 = [InsertSyncFence, OnPreSwap];
            (ok, t2) = (if needToSetPresentationTime p then setPresentationTime p
                        else (True, []))
        in if \<not> ok then Some (False, t1 @ t2)
           else Some (swapBuffers_returns_EGL_TRUE p, t1 @ t2 @ [SwapBuffers, OnPostSwap]))"

definition SwappyGL_swap :: "platform \<Rightarrow> SwappyGL option \<Rightarrow> (bool \<times> call list) option" where
  "SwappyGL_swap p sInstance =
     (case sInstance of
        None \<Rightarrow> Some (False, [])
      | Some swappy \<Rightarrow>
          if enabled swappy then swapInternal p swappy
          else if mEgl swappy then Some (swapBuffers_returns_EGL_TRUE p, [SwapBuffers])
          else None)"

text \<open>
  The Disabled state as the specification words it: construction failed, or frame pacing
  was disabled with \<open>enableFramePacing(false)\<close>.
\<close>

definition spec_Disabled :: "SwappyGL \<Rightarrow> bool" where
  "spec_Disabled sw \<longleftrightarrow> \<not> enabled sw \<or> \<not> mFramePacingEnabled (mCommonBase sw)"

section \<open>Evaluation on concrete inputs\<close>

text \<open>
  Values for the three constants, used where a theorem evaluates the model on a concrete
  input: 200 buckets by default, 3 standard deviations (the specification's example) and
  a minimum bucket width of 0.1 ms.
\<close>

definition example_consts :: hist_consts where
  "example_consts =
     \<lparr>kDefaultNumBuckets = 200, kAutoSizeNumStdDev = 3, kAutoSizeMinBucketSizeMs = 0.1\<rparr>"

lemmas hist_ctor =
  example_consts_def Histogram_def initial_mode_def initial_num_buckets_def bucket_divisor_def

lemmas hist_eval =
  example_consts_def Add_def Histogram_def initial_mode_def initial_num_buckets_def
  bucket_divisor_def Add_case_HISTOGRAM_def target_bucket_def bucket_index_def
  float_to_int_def incr_bucket_def incr_count_def Add_case_AUTO_RANGE_def push_back_def
  CalcBucketsFromSamples_def auto_range_def sample_sums_def Add_bucketed_def
  Add_case_EVENTS_ONLY_def Clear_def AddCounts_def eval_nat_numeral

lemmas swappy_eval = SwappyGL_ctor_def SwappyGL_init_def enabled_def enableFramePacing_def
  setPresentationTime_def swapInternal_def SwappyGL_swap_def spec_Disabled_def

section \<open>Properties of the histogram\<close>

subsection \<open>What one Add leaves unchanged\<close>

lemma incr_bucket_Some:
  assumes "incr_bucket h j = Some h'"
  shows "h' = h\<lparr>buckets := buckets h'\<rparr>"
    and "length (buckets h') = length (buckets h)"
    and "sum_list (buckets h') = sum_list (buckets h) + 1"
    and "0 \<le> j" and "nat j < length (buckets h)"
    and "buckets h' = (buckets h)[nat j := buckets h ! nat j + 1]"
  using assms by (auto simp: incr_bucket_def sum_list_update split: if_splits)

lemma Add_case_HISTOGRAM_Some:
  assumes "Add_case_HISTOGRAM h d = Some h'"
  shows "h' = h\<lparr>buckets := buckets h'\<rparr>"
    and "length (buckets h') = length (buckets h)"
    and "sum_list (buckets h') = sum_list (buckets h) + 1"
proof -
  from assms obtain j where j: "incr_bucket h j = Some h'"
    by (auto simp: Add_case_HISTOGRAM_def split: option.splits)
  show "h' = h\<lparr>buckets := buckets h'\<rparr>" by (rule incr_bucket_Some(1)[OF j])
  show "length (buckets h') = length (buckets h)" by (rule incr_bucket_Some(2)[OF j])
  show "sum_list (buckets h') = sum_list (buckets h) + 1" by (rule incr_bucket_Some(3)[OF j])
qed

lemma Add_bucketed_Some:
  assumes "Add_bucketed h d = Some h'"
  shows "mode h' = mode h" and "start_ms h' = start_ms h" and "end_ms h' = end_ms h"
    and "bucket_dt_ms h' = bucket_dt_ms h" and "num_buckets h' = num_buckets h"
    and "samples h' = samples h" and "samples_capacity h' = samples_capacity h"
    and "next_event_index h' = next_event_index h"
    and "count h' = count h + 1"
    and "length (buckets h') = length (buckets h)"
    and "sum_list (buckets h') = sum_list (buckets h) + 1"
proof -
  from assms obtain h1 where h1: "Add_case_HISTOGRAM h d = Some h1" and e: "h' = incr_count h1"
    by (auto simp: Add_bucketed_def)
  note f = Add_case_HISTOGRAM_Some[OF h1]
  have g: "h' = h\<lparr>buckets := buckets h1, count := count h + 1\<rparr>"
    using e f(1)
    by (metis (no_types, lifting) histogram.simps histogram.surjective histogram.update_convs
        incr_count_def histogram.select_convs)
  show "mode h' = mode h" "start_ms h' = start_ms h" "end_ms h' = end_ms h"
    "bucket_dt_ms h' = bucket_dt_ms h" "num_buckets h' = num_buckets h"
    "samples h' = samples h" "samples_capacity h' = samples_capacity h"
    "next_event_index h' = next_event_index h"
    "count h' = count h + 1"
    "length (buckets h') = length (buckets h)"
    "sum_list (buckets h') = sum_list (buckets h) + 1"
    using f(2,3) by (simp_all add: g)
qed

lemma replay_Some:
  "replay h ds = Some h' \<Longrightarrow>
     mode h' = mode h \<and> start_ms h' = start_ms h \<and> end_ms h' = end_ms h
     \<and> bucket_dt_ms h' = bucket_dt_ms h \<and> num_buckets h' = num_buckets h
     \<and> samples h' = samples h \<and> samples_capacity h' = samples_capacity h
     \<and> next_event_index h' = next_event_index h
     \<and> count h' = count h + length ds
     \<and> length (buckets h') = length (buckets h)
     \<and> sum_list (buckets h') = sum_list (buckets h) + length ds"
proof (induction ds arbitrary: h)
  case Nil
  then show ?case by simp
next
  case (Cons d ds)
  from Cons.prems obtain h1 where a: "Add_bucketed h d = Some h1" and r: "replay h1 ds = Some h'"
    by (auto split: option.splits)
  show ?case using Cons.IH[OF r] Add_bucketed_Some[OF a] by simp
qed


subsection \<open>When Add is defined\<close>

text \<open>
  In HISTOGRAM mode \<open>Add\<close> is defined whenever the bucket width is not zero, the quotient
  fits \<open>int\<close> with room for the increment, and the histogram has its buckets.
\<close>

lemma float_to_int_defined:
  assumes "- (2 ^ 31) < x" and "x < 2 ^ 31"
  shows "\<exists>t. float_to_int x = Some t \<and> - (2 ^ 31) < t \<and> t < 2 ^ 31
           \<and> (real_of_int t \<le> x \<or> t \<le> 0)"
proof (cases "x < 0")
  case True
  define u where "u = \<lfloor>- x\<rfloor>"
  have "- x < 2147483648" using assms(1) by simp
  then have "u < 2147483648" unfolding u_def by (simp add: floor_less_iff)
  moreover have "0 \<le> u" unfolding u_def using True by simp
  ultimately show ?thesis using True by (simp add: float_to_int_def Let_def u_def [symmetric])
next
  case False
  define u where "u = \<lfloor>x\<rfloor>"
  have "x < 2147483648" using assms(2) by simp
  then have "u < 2147483648" unfolding u_def by (simp add: floor_less_iff)
  moreover have "0 \<le> u" unfolding u_def using False by simp
  moreover have "real_of_int u \<le> x" unfolding u_def by simp
  ultimately show ?thesis using False by (simp add: float_to_int_def Let_def u_def [symmetric])
qed

lemma Add_bucketed_defined:
  assumes "bucket_dt_ms h \<noteq> 0"
    and "- (2 ^ 31) < (d - start_ms h) / bucket_dt_ms h"
    and "(d - start_ms h) / bucket_dt_ms h < 2 ^ 31 - 1"
    and "0 < num_buckets h" and "length (buckets h) = nat (num_buckets h)"
  shows "\<exists>h'. Add_bucketed h d = Some h'"
proof -
  let ?q = "(d - start_ms h) / bucket_dt_ms h"
  have "?q < 2 ^ 31" using assms(3) by simp
  from float_to_int_defined[OF assms(2) this] obtain t
    where t: "float_to_int ?q = Some t" and le: "real_of_int t \<le> ?q \<or> t \<le> 0" by blast
  from le have small: "t < 2147483647"
  proof
    assume "real_of_int t \<le> ?q"
    then have "real_of_int t < 2147483647" using assms(3) by simp
    then show ?thesis by simp
  next
    assume "t \<le> 0"
    then show ?thesis by simp
  qed
  have "\<exists>j. target_bucket h d = Some j \<and> 0 \<le> j \<and> j < num_buckets h"
    using t assms(1,4) small by (simp add: target_bucket_def bucket_index_def)
  then obtain j where "target_bucket h d = Some j" "0 \<le> j" "j < num_buckets h" by blast
  then show ?thesis
    using assms(5) by (simp add: Add_bucketed_def Add_case_HISTOGRAM_def incr_bucket_def)
qed


subsection \<open>Sum of the buckets and count\<close>

lemma Add_HISTOGRAM_mode: "mode h = HISTOGRAM \<Longrightarrow> Add c h d = Add_bucketed h d"
  by (simp add: Add_def Add_bucketed_def)

lemma Adds_HISTOGRAM_mode: "mode h = HISTOGRAM \<Longrightarrow> Adds c h ds = replay h ds"
proof (induction ds arbitrary: h)
  case Nil
  then show ?case by simp
next
  case (Cons d ds)
  show ?case
  proof (cases "Add_bucketed h d")
    case None
    then show ?thesis using Cons.prems by (simp add: Add_HISTOGRAM_mode)
  next
    case (Some h1)
    then have "mode h1 = HISTOGRAM" using Add_bucketed_Some(1)[OF Some] Cons.prems by simp
    then show ?thesis using Cons.IH[of h1] Some Cons.prems by (simp add: Add_HISTOGRAM_mode)
  qed
qed

lemma fixed_range_sum_eq_count:
  assumes "mode (Histogram c s e nbb nv) = HISTOGRAM"
    and "Adds c (Histogram c s e nbb nv) ds = Some h"
  shows "mode h = HISTOGRAM \<and> sum_list (buckets h) = count h \<and> count h = length ds"
proof -
  have r: "replay (Histogram c s e nbb nv) ds = Some h"
    using assms Adds_HISTOGRAM_mode by simp
  have z: "sum_list (buckets (Histogram c s e nbb nv)) = 0" "count (Histogram c s e nbb nv) = 0"
    by (simp_all add: Histogram_def Let_def)
  show ?thesis using replay_Some[OF r] z assms(1) by simp
qed

lemma CalcBucketsFromSamples_Some:
  assumes "mode h = AUTO_RANGE" and "CalcBucketsFromSamples c h = Some h'"
  shows "mode h' = HISTOGRAM" and "count h' = length (samples h)"
    and "sum_list (buckets h') = sum_list (buckets h) + length (samples h)"
    and "length (buckets h') = length (buckets h)"
    and "num_buckets h' = num_buckets h" and "samples h' = samples h"
    and "samples_capacity h' = samples_capacity h"
proof -
  from assms obtain s e dt where
    r: "replay (h\<lparr>start_ms := s, end_ms := e, bucket_dt_ms := dt, mode := HISTOGRAM, count := 0\<rparr>)
          (samples h) = Some h'"
    by (auto simp: CalcBucketsFromSamples_def split: option.splits)
  show "mode h' = HISTOGRAM" "count h' = length (samples h)"
    "sum_list (buckets h') = sum_list (buckets h) + length (samples h)"
    "length (buckets h') = length (buckets h)"
    "num_buckets h' = num_buckets h" "samples h' = samples h"
    "samples_capacity h' = samples_capacity h"
    using replay_Some[OF r] by simp_all
qed

lemma Add_auto_range_inv:
  assumes "auto_range_inv h" and "Add c h d = Some h'"
  shows "auto_range_inv h'"
proof (cases "mode h = HISTOGRAM")
  case True
  then have "Add_bucketed h d = Some h'" using assms(2) by (simp add: Add_HISTOGRAM_mode)
  from Add_bucketed_Some[OF this] assms(1) True show ?thesis by (simp add: auto_range_inv_def)
next
  case False
  then have m: "mode h = AUTO_RANGE" and z: "sum_list (buckets h) = 0"
    using assms(1) by (auto simp: auto_range_inv_def)
  from assms(2) m obtain h1 where h1: "Add_case_AUTO_RANGE c h d = Some h1" and e: "h' = incr_count h1"
    by (auto simp: Add_def)
  let ?p = "push_back h d"
  have pm: "mode ?p = AUTO_RANGE" "buckets ?p = buckets h" "samples ?p = samples h @ [d]"
    using m by (simp_all add: push_back_def)
  show ?thesis
  proof (cases "length (samples ?p) = samples_capacity ?p")
    case True
    then have "CalcBucketsFromSamples c ?p = Some h1"
      using h1 by (simp add: Add_case_AUTO_RANGE_def Let_def)
    from CalcBucketsFromSamples_Some[OF pm(1) this] pm z e show ?thesis
      by (simp add: auto_range_inv_def incr_count_def)
  next
    case False
    then have "h1 = ?p" using h1 by (simp add: Add_case_AUTO_RANGE_def Let_def)
    then show ?thesis using pm z e by (simp add: auto_range_inv_def incr_count_def)
  qed
qed

lemma Adds_auto_range_inv:
  "auto_range_inv h \<Longrightarrow> Adds c h ds = Some h' \<Longrightarrow> auto_range_inv h'"
proof (induction ds arbitrary: h)
  case Nil
  then show ?case by simp
next
  case (Cons d ds)
  from Cons.prems(2) obtain h1 where a: "Add c h d = Some h1" and r: "Adds c h1 ds = Some h'"
    by (auto split: option.splits)
  show ?case using Cons.IH[OF Add_auto_range_inv[OF Cons.prems(1) a] r] .
qed

lemma auto_range_count_off_by_one:
  assumes "mode (Histogram c s e nbb nv) = AUTO_RANGE"
    and "Adds c (Histogram c s e nbb nv) ds = Some h"
    and "mode h = HISTOGRAM"
  shows "count h = sum_list (buckets h) + 1"
proof -
  have "auto_range_inv (Histogram c s e nbb nv)"
    using assms(1) by (simp add: auto_range_inv_def Histogram_def Let_def)
  from Adds_auto_range_inv[OF this assms(2)] assms(3) show ?thesis
    by (simp add: auto_range_inv_def)
qed


text \<open>
  Claim C1. In HISTOGRAM mode the sum of the bucket counts equals \<open>count\<close> after any
  sequence of \<open>Add\<close> calls, also for a histogram that reached HISTOGRAM mode from
  AUTO_RANGE. The code keeps this for a histogram constructed in HISTOGRAM mode
  (\<open>fixed_range_sum_eq_count\<close>) and breaks it at the transition
  (\<open>auto_range_count_off_by_one\<close>): \<open>CalcBucketsFromSamples\<close> resets the count and
  replays the \<open>n\<close> buffered samples, and the \<open>Add\<close> that called it increments the count
  once more. Here a histogram with three buckets receives three samples: the buckets sum
  to 3 and the count is 4.
\<close>

theorem count_after_transition_is_one_too_many:
  "map_option (\<lambda>h. (mode h, buckets h, sum_list (buckets h), count h))
     (Adds example_consts (Histogram example_consts 0 0 1 False) [1, 1, 1])
   = Some (HISTOGRAM, [0, 3, 0], 3, 4)"
  by (simp add: hist_eval)

subsection \<open>Bucket selection\<close>

lemma sample_just_below_start:
  assumes "0 < bucket_dt_ms h" and "2 < num_buckets h"
    and "start_ms h - bucket_dt_ms h < s" and "s < start_ms h"
  shows "bucket_index h s = Some 0" and "target_bucket h s = Some 1"
    and "\<lfloor>(s - start_ms h) / bucket_dt_ms h\<rfloor> = - 1"
proof -
  let ?q = "(s - start_ms h) / bucket_dt_ms h"
  have q: "- 1 < ?q" "?q < 0"
    using assms by (simp_all add: field_simps)
  then have "\<lfloor>- ?q\<rfloor> = 0" by (simp add: floor_eq_iff)
  then show i: "bucket_index h s = Some 0"
    using assms(1) q by (simp add: bucket_index_def float_to_int_def)
  show "target_bucket h s = Some 1"
    using i assms(2) by (simp add: target_bucket_def)
  show "\<lfloor>?q\<rfloor> = - 1"
    using q by (simp add: floor_eq_iff)
qed

text \<open>
  Claim C2. In HISTOGRAM mode \<open>Add(s)\<close> takes \<open>i = floor((s - start) / bucket_width)\<close>,
  increments bucket 0 when \<open>i < 0\<close>, the last bucket when \<open>i + 1 \<ge> num_buckets\<close> and
  bucket \<open>i + 1\<close> otherwise, so that every sample below \<open>start\<close> lands in bucket 0; for
  \<open>Histogram(0, 20, 5)\<close>, \<open>Add(-1)\<close> gives bucket 0, \<open>Add(19.9)\<close> bucket 5 and
  \<open>Add(100)\<close> bucket 6. The code converts the quotient to \<open>int\<close>, which rounds towards
  zero: for \<open>Add(-1)\<close> the quotient is \<open>-1/4\<close>, its floor is \<open>-1\<close>, the code's index is
  0 and the increment lands in bucket 1 (\<open>sample_just_below_start\<close> gives this for every
  sample less than one bucket width below \<open>start\<close>).
\<close>

theorem Add_minus_one_lands_in_bucket_one:
  "\<lfloor>(- 1 - start_ms (Histogram example_consts 0 20 5 False))
       / bucket_dt_ms (Histogram example_consts 0 20 5 False)\<rfloor> = - 1
   \<and> bucket_index (Histogram example_consts 0 20 5 False) (- 1) = Some 0
   \<and> map_option buckets (Add example_consts (Histogram example_consts 0 20 5 False) (- 1))
       = Some [0, 1, 0, 0, 0, 0, 0]
   \<and> map_option (\<lambda>h. (buckets h, count h))
         (Adds example_consts (Histogram example_consts 0 20 5 False) [- 1, 19.9, 100])
       = Some ([0, 1, 0, 0, 0, 1, 1], 3)"
  by (simp add: hist_eval)

subsection \<open>AddCounts\<close>



subsection \<open>EVENTS_ONLY: the ring buffer\<close>

lemma Adds_append:
  "Adds c h (xs @ ys) = (case Adds c h xs of None \<Rightarrow> None | Some h' \<Rightarrow> Adds c h' ys)"
  by (induction xs arbitrary: h) (auto split: option.splits)

lemma mod_neq_within_window:
  fixes k m n :: nat
  assumes "k < m" and "m < k + n"
  shows "k mod n \<noteq> m mod n"
proof
  assume "k mod n = m mod n"
  then have "n dvd m - k"
    using assms(1) by (metis less_imp_le_nat mod_eq_dvd_iff_nat)
  moreover have "0 < m - k" "m - k < n" using assms by simp_all
  ultimately show False using nat_dvd_not_less by blast
qed

lemma Add_EVENTS_ONLY_step:
  assumes "mode h = EVENTS_ONLY" and "next_event_index h < length (samples h)"
  shows "Add c h s =
     Some (h\<lparr>samples := (samples h)[next_event_index h := s],
             next_event_index :=
               (if next_event_index h + 1 \<ge> length (samples h) then 0
                else next_event_index h + 1),
             count := count h + 1\<rparr>)"
  using assms by (simp add: Add_def Add_case_EVENTS_ONLY_def incr_count_def Let_def)

lemma events_only_Adds:
  assumes n: "0 < n" and nb: "nat (initial_num_buckets c nbb) = n"
  shows "\<exists>h. Adds c (Histogram c st en nbb True) xs = Some h
     \<and> mode h = EVENTS_ONLY \<and> count h = length xs \<and> length (samples h) = n
     \<and> next_event_index h = length xs mod n
     \<and> (\<forall>k < length xs. length xs \<le> k + n \<longrightarrow> samples h ! (k mod n) = xs ! k)
     \<and> (\<forall>j < n. length xs \<le> j \<longrightarrow> samples h ! j = 0)"
proof (induction xs rule: rev_induct)
  case Nil
  show ?case using n nb by (simp add: Histogram_def initial_mode_def Let_def)
next
  case (snoc x xs)
  let ?m = "length xs"
  from snoc obtain h where h: "Adds c (Histogram c st en nbb True) xs = Some h"
    and md: "mode h = EVENTS_ONLY" and cnt: "count h = ?m" and len: "length (samples h) = n"
    and nx: "next_event_index h = ?m mod n"
    and recent: "\<And>k. k < ?m \<Longrightarrow> ?m \<le> k + n \<Longrightarrow> samples h ! (k mod n) = xs ! k"
    and fresh: "\<And>j. j < n \<Longrightarrow> ?m \<le> j \<Longrightarrow> samples h ! j = 0"
    by blast
  have lt: "next_event_index h < length (samples h)" using nx len n by simp
  define h1 where "h1 = h\<lparr>samples := (samples h)[next_event_index h := x],
             next_event_index :=
               (if next_event_index h + 1 \<ge> length (samples h) then 0
                else next_event_index h + 1),
             count := count h + 1\<rparr>"
  have a: "Add c h x = Some h1" unfolding h1_def by (rule Add_EVENTS_ONLY_step[OF md lt])
  have run: "Adds c (Histogram c st en nbb True) (xs @ [x]) = Some h1"
    using h a by (simp add: Adds_append)
  have s1: "samples h1 = (samples h)[?m mod n := x]" by (simp add: h1_def nx)
  have "next_event_index h1 = Suc ?m mod n"
    using lt by (auto simp: h1_def nx len mod_Suc)
  moreover have "samples h1 ! (k mod n) = (xs @ [x]) ! k"
    if "k < length (xs @ [x])" "length (xs @ [x]) \<le> k + n" for k
  proof (cases "k = ?m")
    case True
    then show ?thesis using len n by (simp add: s1)
  next
    case False
    then have km: "k < ?m" using that(1) by simp
    have "k mod n \<noteq> ?m mod n" using mod_neq_within_window[OF km] that(2) by simp
    then have "samples h1 ! (k mod n) = samples h ! (k mod n)" by (simp add: s1)
    also have "\<dots> = xs ! k" using recent[OF km] that(2) by simp
    finally show ?thesis using km by (simp add: nth_append)
  qed
  moreover have "samples h1 ! j = 0" if "j < n" "length (xs @ [x]) \<le> j" for j
  proof -
    have "?m < n" "?m \<noteq> j" using that by simp_all
    then have "samples h1 ! j = samples h ! j" by (simp add: s1)
    then show ?thesis using fresh[OF that(1)] that(2) by simp
  qed
  ultimately show ?case using run md cnt len by (auto simp: h1_def)
qed


text \<open>
  Claim C5. In EVENTS_ONLY mode \<open>Add(s)\<close> writes \<open>s\<close> at the write cursor and advances
  the cursor, which wraps to 0 at the size of the buffer; the count grows by one on every
  \<open>Add\<close>. So after the samples \<open>xs\<close> a buffer of \<open>n\<close> cells holds the last \<open>n\<close>
  samples, sample \<open>k\<close> in cell \<open>k mod n\<close>, the cells not yet written hold 0, and the
  count is the number of samples. With capacity 3 and the samples 1, 2, 3, 4 the buffer is
  \<open>[4, 2, 3]\<close> and the count 4.
\<close>

theorem events_only_ring_buffer:
  "(mode h = EVENTS_ONLY \<and> next_event_index h < length (samples h) \<longrightarrow>
      Add c h s =
        Some (h\<lparr>samples := (samples h)[next_event_index h := s],
                next_event_index :=
                  (if next_event_index h + 1 \<ge> length (samples h) then 0
                   else next_event_index h + 1),
                count := count h + 1\<rparr>))
   \<and> (0 < nat (initial_num_buckets c nbb) \<longrightarrow>
      (\<exists>h'. Adds c (Histogram c st en nbb True) xs = Some h'
         \<and> mode h' = EVENTS_ONLY
         \<and> count h' = length xs
         \<and> length (samples h') = nat (initial_num_buckets c nbb)
         \<and> next_event_index h' = length xs mod nat (initial_num_buckets c nbb)
         \<and> (\<forall>k < length xs. length xs \<le> k + nat (initial_num_buckets c nbb) \<longrightarrow>
               samples h' ! (k mod nat (initial_num_buckets c nbb)) = xs ! k)
         \<and> (\<forall>j < nat (initial_num_buckets c nbb). length xs \<le> j \<longrightarrow>
               samples h' ! j = 0)))"
proof (intro conjI impI)
  assume "mode h = EVENTS_ONLY \<and> next_event_index h < length (samples h)"
  then show "Add c h s =
        Some (h\<lparr>samples := (samples h)[next_event_index h := s],
                next_event_index :=
                  (if next_event_index h + 1 \<ge> length (samples h) then 0
                   else next_event_index h + 1),
                count := count h + 1\<rparr>)"
    by (simp add: Add_EVENTS_ONLY_step)
next
  assume "0 < nat (initial_num_buckets c nbb)"
  then show "\<exists>h'. Adds c (Histogram c st en nbb True) xs = Some h'
         \<and> mode h' = EVENTS_ONLY
         \<and> count h' = length xs
         \<and> length (samples h') = nat (initial_num_buckets c nbb)
         \<and> next_event_index h' = length xs mod nat (initial_num_buckets c nbb)
         \<and> (\<forall>k < length xs. length xs \<le> k + nat (initial_num_buckets c nbb) \<longrightarrow>
               samples h' ! (k mod nat (initial_num_buckets c nbb)) = xs ! k)
         \<and> (\<forall>j < nat (initial_num_buckets c nbb). length xs \<le> j \<longrightarrow>
               samples h' ! j = 0)"
    by (rule events_only_Adds) simp
qed

theorem events_only_ring_buffer_witness:
  "0 < nat (initial_num_buckets example_consts 1)
   \<and> (\<exists>h'. Adds example_consts (Histogram example_consts 0 0 1 True) [1, 2, 3, 4] = Some h'
         \<and> mode h' = EVENTS_ONLY \<and> next_event_index h' < length (samples h')
         \<and> samples h' = [4, 2, 3] \<and> count h' = 4 \<and> next_event_index h' = 1
         \<and> map_option (\<lambda>h. (samples h, next_event_index h, count h))
               (Add example_consts h' 5) = Some ([4, 5, 3], 2, 5))"
proof -
  let ?H = "\<lparr>mode = EVENTS_ONLY, start_ms = 0, end_ms = 0, bucket_dt_ms = 0, num_buckets = 3,
          buckets = [0, 0, 0], samples = [4, 2, 3], samples_capacity = 3, count = 4,
          next_event_index = 1\<rparr>"
  have run: "Adds example_consts (Histogram example_consts 0 0 1 True) [1, 2, 3, 4] = Some ?H"
    by (simp add: hist_eval)
  have n: "0 < nat (initial_num_buckets example_consts 1)"
    by (simp add: initial_num_buckets_def)
  have pre: "mode ?H = EVENTS_ONLY \<and> next_event_index ?H < length (samples ?H)"
    by simp
  have step: "map_option (\<lambda>h. (samples h, next_event_index h, count h))
               (Add example_consts ?H 5) = Some ([4, 5, 3], 2, 5)"
    using pre events_only_ring_buffer [of ?H example_consts 5 1 0 0 "[1, 2, 3, 4]"]
    by (simp add: eval_nat_numeral)
  show ?thesis
    by (intro conjI exI [of _ ?H]) (simp_all only: n run step, simp_all)
qed

subsection \<open>Clear\<close>

lemma Add_preserves_shape:
  assumes "Add c h d = Some h'"
  shows "num_buckets h' = num_buckets h" and "length (buckets h') = length (buckets h)"
    and "mode h' = mode h \<or> (mode h = AUTO_RANGE \<and> mode h' = HISTOGRAM)"
proof -
  have "num_buckets h' = num_buckets h \<and> length (buckets h') = length (buckets h)
      \<and> (mode h' = mode h \<or> (mode h = AUTO_RANGE \<and> mode h' = HISTOGRAM))"
  proof (cases "mode h")
    case HISTOGRAM
    then have "Add_bucketed h d = Some h'" using assms by (simp add: Add_HISTOGRAM_mode)
    from Add_bucketed_Some[OF this] show ?thesis by simp
  next
    case AUTO_RANGE
    from assms AUTO_RANGE obtain h1 where h1: "Add_case_AUTO_RANGE c h d = Some h1"
      and e: "h' = incr_count h1"
      by (auto simp: Add_def)
    let ?p = "push_back h d"
    have pm: "mode ?p = AUTO_RANGE" "buckets ?p = buckets h" "num_buckets ?p = num_buckets h"
      using AUTO_RANGE by (simp_all add: push_back_def)
    show ?thesis
    proof (cases "length (samples ?p) = samples_capacity ?p")
      case True
      then have "CalcBucketsFromSamples c ?p = Some h1"
        using h1 by (simp add: Add_case_AUTO_RANGE_def Let_def)
      from CalcBucketsFromSamples_Some[OF pm(1) this] pm e AUTO_RANGE show ?thesis
        by (simp add: incr_count_def)
    next
      case False
      then have "h1 = ?p" using h1 by (simp add: Add_case_AUTO_RANGE_def Let_def)
      then show ?thesis using pm e AUTO_RANGE by (simp add: incr_count_def)
    qed
  next
    case EVENTS_ONLY
    then show ?thesis using assms
      by (auto simp: Add_def Add_case_EVENTS_ONLY_def incr_count_def Let_def split: if_splits)
  qed
  then show "num_buckets h' = num_buckets h" and "length (buckets h') = length (buckets h)"
    and "mode h' = mode h \<or> (mode h = AUTO_RANGE \<and> mode h' = HISTOGRAM)"
    by simp_all
qed

lemma Adds_preserves_shape:
  "Adds c h ds = Some h' \<Longrightarrow>
     num_buckets h' = num_buckets h \<and> length (buckets h') = length (buckets h)
     \<and> (mode h' = mode h \<or> (mode h = AUTO_RANGE \<and> mode h' = HISTOGRAM))"
proof (induction ds arbitrary: h)
  case Nil
  then show ?case by simp
next
  case (Cons d ds)
  from Cons.prems obtain h1 where a: "Add c h d = Some h1" and r: "Adds c h1 ds = Some h'"
    by (auto split: option.splits)
  show ?case using Cons.IH[OF r] Add_preserves_shape[OF a] by auto
qed

lemma Add_AUTO_RANGE_stays:
  assumes "mode h = AUTO_RANGE" and "buffering h" and "Add c h d = Some h'"
    and "mode h' = AUTO_RANGE"
  shows "h' = h\<lparr>samples := samples h @ [d], count := count h + 1\<rparr>" and "buffering h'"
proof -
  from assms(1,3) obtain h1 where h1: "Add_case_AUTO_RANGE c h d = Some h1"
    and e: "h' = incr_count h1"
    by (auto simp: Add_def)
  let ?p = "push_back h d"
  have pm: "mode ?p = AUTO_RANGE" using assms(1) by (simp add: push_back_def)
  have ne: "length (samples ?p) \<noteq> samples_capacity ?p"
  proof
    assume "length (samples ?p) = samples_capacity ?p"
    then have "CalcBucketsFromSamples c ?p = Some h1"
      using h1 by (simp add: Add_case_AUTO_RANGE_def Let_def)
    from CalcBucketsFromSamples_Some(1)[OF pm this] e assms(4) show False
      by (simp add: incr_count_def)
  qed
  then have "h1 = ?p" using h1 by (simp add: Add_case_AUTO_RANGE_def Let_def)
  moreover have "length (samples h) < samples_capacity h"
    using assms(2) ne by (auto simp: buffering_def push_back_def)
  ultimately show "h' = h\<lparr>samples := samples h @ [d], count := count h + 1\<rparr>" and "buffering h'"
    using e ne by (auto simp: push_back_def incr_count_def buffering_def)
qed

lemma Adds_AUTO_RANGE_stays:
  "mode h = AUTO_RANGE \<Longrightarrow> buffering h \<Longrightarrow> Adds c h ds = Some h' \<Longrightarrow> mode h' = AUTO_RANGE
    \<Longrightarrow> h' = h\<lparr>samples := samples h @ ds, count := count h + length ds\<rparr>"
proof (induction ds arbitrary: h)
  case Nil
  then show ?case by simp
next
  case (Cons d ds)
  from Cons.prems(3) obtain h1 where a: "Add c h d = Some h1" and r: "Adds c h1 ds = Some h'"
    by (auto split: option.splits)
  have m1: "mode h1 = AUTO_RANGE"
    using Add_preserves_shape(3)[OF a] Adds_preserves_shape[OF r] Cons.prems(1,4) by auto
  note s = Add_AUTO_RANGE_stays[OF Cons.prems(1,2) a m1]
  show ?case using Cons.IH[OF m1 s(2) r Cons.prems(4)] s(1) by simp
qed

lemma Adds_HISTOGRAM_stays:
  assumes "mode h = HISTOGRAM" and "Adds c h ds = Some h'"
  shows "h' = h\<lparr>buckets := buckets h', count := count h + length ds\<rparr>"
    and "length (buckets h') = length (buckets h)"
proof -
  have r: "replay h ds = Some h'" using assms Adds_HISTOGRAM_mode by simp
  show "h' = h\<lparr>buckets := buckets h', count := count h + length ds\<rparr>"
    using replay_Some[OF r] by (intro histogram.equality) simp_all
  show "length (buckets h') = length (buckets h)" using replay_Some[OF r] by simp
qed

lemma Clear_restores_construction:
  assumes "Adds c (Histogram c s e nbb False) ds = Some h"
    and "mode h = mode (Histogram c s e nbb False)"
  shows "Clear h = Histogram c s e nbb False"
proof (cases "s = 0 \<and> e = 0")
  case True
  let ?h0 = "Histogram c s e nbb False"
  have m: "mode ?h0 = AUTO_RANGE" using True by (simp add: Histogram_def initial_mode_def Let_def)
  have b: "buffering ?h0"
    using True by (auto simp: Histogram_def initial_mode_def Let_def buffering_def)
  have "h = ?h0\<lparr>samples := samples ?h0 @ ds, count := count ?h0 + length ds\<rparr>"
    using Adds_AUTO_RANGE_stays[OF m b assms(1)] assms(2) m by simp
  then show ?thesis
    using True by (simp add: Clear_def Histogram_def initial_mode_def Let_def)
next
  case False
  let ?h0 = "Histogram c s e nbb False"
  have m: "mode ?h0 = HISTOGRAM" using False by (simp add: Histogram_def initial_mode_def Let_def)
  note t = Adds_HISTOGRAM_stays[OF m assms(1)]
  have "Clear h = ?h0\<lparr>buckets := replicate (length (buckets ?h0)) 0\<rparr>"
    apply (subst t(1))
    using False t(2) by (simp add: Clear_def Histogram_def initial_mode_def Let_def map_replicate_const)
  then show ?thesis
    using False by (simp add: Histogram_def initial_mode_def Let_def)
qed

lemma same_bucketing_step:
  assumes "same_bucketing a b"
  shows "(Add_bucketed a d = None \<and> Add_bucketed b d = None)
     \<or> (\<exists>a' b'. Add_bucketed a d = Some a' \<and> Add_bucketed b d = Some b' \<and> same_bucketing a' b')"
proof -
  have t: "target_bucket a d = target_bucket b d"
    using assms unfolding same_bucketing_def
    by (auto simp: target_bucket_def bucket_index_def split: option.splits)
  show ?thesis
  proof (cases "target_bucket b d")
    case None
    then show ?thesis using t by (simp add: Add_bucketed_def Add_case_HISTOGRAM_def)
  next
    case (Some j)
    then show ?thesis using t assms
      by (auto simp: Add_bucketed_def Add_case_HISTOGRAM_def incr_bucket_def incr_count_def
          same_bucketing_def)
  qed
qed

lemma same_bucketing_replay:
  "same_bucketing a b \<Longrightarrow>
     map_option (\<lambda>h. (buckets h, count h)) (replay a ds)
     = map_option (\<lambda>h. (buckets h, count h)) (replay b ds)"
proof (induction ds arbitrary: a b)
  case Nil
  then show ?case by (simp add: same_bucketing_def)
next
  case (Cons d ds)
  from same_bucketing_step[OF Cons.prems, of d] show ?case
  proof
    assume "Add_bucketed a d = None \<and> Add_bucketed b d = None"
    then show ?thesis by simp
  next
    assume "\<exists>a' b'. Add_bucketed a d = Some a' \<and> Add_bucketed b d = Some b' \<and> same_bucketing a' b'"
    then obtain a' b' where "Add_bucketed a d = Some a'" "Add_bucketed b d = Some b'"
      "same_bucketing a' b'" by blast
    then show ?thesis using Cons.IH[of a' b'] by simp
  qed
qed

lemma Clear_then_Adds_as_fresh:
  assumes reach: "Adds c (Histogram c s0 e0 nbb0 False) ys = Some h"
    and md: "mode (Histogram c s e nbb False) = mode h"
    and st: "start_ms (Histogram c s e nbb False) = start_ms h"
    and en: "end_ms (Histogram c s e nbb False) = end_ms h"
    and dt: "bucket_dt_ms (Histogram c s e nbb False) = bucket_dt_ms h"
    and nb: "num_buckets (Histogram c s e nbb False) = num_buckets h"
  shows "map_option (\<lambda>h. (buckets h, count h)) (Adds c (Clear h) xs)
       = map_option (\<lambda>h. (buckets h, count h)) (Adds c (Histogram c s e nbb False) xs)"
proof -
  let ?h0 = "Histogram c s0 e0 nbb0 False" and ?f = "Histogram c s e nbb False"
  note sh = Adds_preserves_shape[OF reach]
  have len: "length (buckets h) = nat (num_buckets h)"
    using sh by (simp add: Histogram_def Let_def)
  have cases: "mode h = AUTO_RANGE \<or> mode h = HISTOGRAM"
    using sh by (auto simp: Histogram_def Let_def initial_mode_def split: if_splits)
  then show ?thesis
  proof
    assume a: "mode h = AUTO_RANGE"
    then have m0: "mode ?h0 = AUTO_RANGE" using sh by auto
    then have z0: "s0 = 0 \<and> e0 = 0" by (simp add: Histogram_def Let_def initial_mode_def split: if_splits)
    have zf: "s = 0 \<and> e = 0" using md a by (simp add: Histogram_def Let_def initial_mode_def split: if_splits)
    have "initial_num_buckets c nbb = initial_num_buckets c nbb0"
      using nb sh by (simp add: Histogram_def Let_def)
    then have "?f = ?h0" using z0 zf by (simp add: Histogram_def Let_def)
    moreover have "Clear h = ?h0"
      using Clear_restores_construction[OF reach] a m0 by simp
    ultimately show ?thesis by simp
  next
    assume a: "mode h = HISTOGRAM"
    have "same_bucketing (Clear h) ?f"
      using a md st dt nb len
      by (simp add: same_bucketing_def Clear_def Let_def map_replicate_const)
        (simp add: Histogram_def Let_def)
    then have "map_option (\<lambda>h. (buckets h, count h)) (replay (Clear h) xs)
       = map_option (\<lambda>h. (buckets h, count h)) (replay ?f xs)"
      by (rule same_bucketing_replay)
    moreover have "mode (Clear h) = HISTOGRAM" using a by (simp add: Clear_def Let_def)
    ultimately show ?thesis using md a by (simp add: Adds_HISTOGRAM_mode)
  qed
qed


text \<open>
  Claim C6. \<open>Clear()\<close> sets every bucket and the count to zero; in EVENTS_ONLY mode it
  also zeroes the raw buffer and resets the write cursor; in the other modes it discards
  the buffered samples and keeps the mode and the range. For a histogram that is not in
  EVENTS_ONLY mode, \<open>Clear()\<close> followed by any sequence of \<open>Add\<close> calls gives the same
  buckets (and count) as a freshly constructed histogram with the same mode and range
  parameters given the same sequence.
\<close>

theorem Clear_resets_and_restarts:
  "buckets (Clear h) = replicate (length (buckets h)) 0
   \<and> count (Clear h) = 0
   \<and> mode (Clear h) = mode h
   \<and> start_ms (Clear h) = start_ms h \<and> end_ms (Clear h) = end_ms h
   \<and> bucket_dt_ms (Clear h) = bucket_dt_ms h \<and> num_buckets (Clear h) = num_buckets h
   \<and> (mode h = EVENTS_ONLY \<longrightarrow>
         samples (Clear h) = replicate (length (samples h)) 0
         \<and> next_event_index (Clear h) = 0)
   \<and> (mode h \<noteq> EVENTS_ONLY \<longrightarrow> samples (Clear h) = [])
   \<and> (Adds c (Histogram c s0 e0 nbb0 False) ys = Some h
        \<and> mode (Histogram c s e nbb False) = mode h
        \<and> start_ms (Histogram c s e nbb False) = start_ms h
        \<and> end_ms (Histogram c s e nbb False) = end_ms h
        \<and> bucket_dt_ms (Histogram c s e nbb False) = bucket_dt_ms h
        \<and> num_buckets (Histogram c s e nbb False) = num_buckets h \<longrightarrow>
         map_option (\<lambda>h. (buckets h, count h)) (Adds c (Clear h) xs)
         = map_option (\<lambda>h. (buckets h, count h)) (Adds c (Histogram c s e nbb False) xs))"
proof -
  have fields: "buckets (Clear h) = replicate (length (buckets h)) 0
     \<and> count (Clear h) = 0 \<and> mode (Clear h) = mode h
     \<and> start_ms (Clear h) = start_ms h \<and> end_ms (Clear h) = end_ms h
     \<and> bucket_dt_ms (Clear h) = bucket_dt_ms h \<and> num_buckets (Clear h) = num_buckets h"
    by (simp add: Clear_def Let_def map_replicate_const)
  have ev: "mode h = EVENTS_ONLY \<longrightarrow>
         samples (Clear h) = replicate (length (samples h)) 0
         \<and> next_event_index (Clear h) = 0"
    by (simp add: Clear_def Let_def map_replicate_const)
  have other: "mode h \<noteq> EVENTS_ONLY \<longrightarrow> samples (Clear h) = []"
    by (simp add: Clear_def Let_def)
  have again: "Adds c (Histogram c s0 e0 nbb0 False) ys = Some h
        \<and> mode (Histogram c s e nbb False) = mode h
        \<and> start_ms (Histogram c s e nbb False) = start_ms h
        \<and> end_ms (Histogram c s e nbb False) = end_ms h
        \<and> bucket_dt_ms (Histogram c s e nbb False) = bucket_dt_ms h
        \<and> num_buckets (Histogram c s e nbb False) = num_buckets h \<longrightarrow>
         map_option (\<lambda>h. (buckets h, count h)) (Adds c (Clear h) xs)
         = map_option (\<lambda>h. (buckets h, count h)) (Adds c (Histogram c s e nbb False) xs)"
    using Clear_then_Adds_as_fresh [of c s0 e0 nbb0 ys h s e nbb xs] by blast
  show ?thesis
    using fields ev other again by (intro conjI) (simp_all only:)
qed

theorem Clear_resets_and_restarts_witness:
  "Adds example_consts (Histogram example_consts 0 0 1 False) [1, 1, 1]
     = Some \<lparr>mode = HISTOGRAM, start_ms = 19 / 20, end_ms = 21 / 20, bucket_dt_ms = 1 / 10,
         num_buckets = 3, buckets = [0, 3, 0], samples = [1, 1, 1], samples_capacity = 3,
         count = 4, next_event_index = 0\<rparr>
   \<and> mode (Histogram example_consts (19 / 20) (21 / 20) 1 False) = HISTOGRAM
   \<and> bucket_dt_ms (Histogram example_consts (19 / 20) (21 / 20) 1 False) = 1 / 10
   \<and> num_buckets (Histogram example_consts (19 / 20) (21 / 20) 1 False) = 3
   \<and> samples (Clear \<lparr>mode = HISTOGRAM, start_ms = 19 / 20, end_ms = 21 / 20,
         bucket_dt_ms = 1 / 10, num_buckets = 3, buckets = [0, 3, 0], samples = [1, 1, 1],
         samples_capacity = 3, count = 4, next_event_index = 0\<rparr>) = []
   \<and> map_option (\<lambda>h. (buckets h, count h))
        (Adds example_consts
           (Clear \<lparr>mode = HISTOGRAM, start_ms = 19 / 20, end_ms = 21 / 20,
              bucket_dt_ms = 1 / 10, num_buckets = 3, buckets = [0, 3, 0],
              samples = [1, 1, 1], samples_capacity = 3, count = 4, next_event_index = 0\<rparr>)
           [1 / 2, 1, 2])
       = map_option (\<lambda>h. (buckets h, count h))
           (Adds example_consts (Histogram example_consts (19 / 20) (21 / 20) 1 False)
              [1 / 2, 1, 2])
   \<and> map_option (\<lambda>h. (buckets h, count h))
        (Adds example_consts (Histogram example_consts (19 / 20) (21 / 20) 1 False)
           [1 / 2, 1, 2])
       = Some ([1, 1, 1], 3)"
proof -
  let ?H = "\<lparr>mode = HISTOGRAM, start_ms = 19 / 20, end_ms = 21 / 20, bucket_dt_ms = 1 / 10,
         num_buckets = 3, buckets = [0, 3, 0], samples = [1, 1, 1], samples_capacity = 3,
         count = 4, next_event_index = 0 :: nat\<rparr>"
  let ?f = "Histogram example_consts (19 / 20) (21 / 20) 1 False"
  have run: "Adds example_consts (Histogram example_consts 0 0 1 False) [1, 1, 1] = Some ?H"
    by (simp add: hist_eval)
  have f: "mode ?f = HISTOGRAM" "start_ms ?f = 19 / 20" "end_ms ?f = 21 / 20"
    "bucket_dt_ms ?f = 1 / 10" "num_buckets ?f = 3"
    by (simp_all add: hist_eval)
  have fresh: "map_option (\<lambda>h. (buckets h, count h)) (Adds example_consts ?f [1 / 2, 1, 2])
       = Some ([1, 1, 1], 3)"
    by (simp add: hist_eval)
  have ne: "mode ?H \<noteq> EVENTS_ONLY" by simp
  note inst = Clear_resets_and_restarts
      [of ?H example_consts 0 0 1 "[1, 1, 1]" "19 / 20" "21 / 20" 1 "[1 / 2, 1, 2]"]
  have emp: "samples (Clear ?H) = []" using inst ne by blast
  have eq: "map_option (\<lambda>h. (buckets h, count h)) (Adds example_consts (Clear ?H) [1 / 2, 1, 2])
       = map_option (\<lambda>h. (buckets h, count h)) (Adds example_consts ?f [1 / 2, 1, 2])"
    using inst run f by simp
  show ?thesis
    using run f emp eq fresh by (intro conjI) (simp_all only:)
qed

subsection \<open>The AUTO_RANGE transition\<close>



















subsection \<open>ToDebugJSON\<close>

lemma show_nat_small: "n < 10 \<Longrightarrow> show_nat n = [''0123456789'' ! n]"
  by (subst show_nat.simps) simp

lemma show_nat_large:
  "10 \<le> n \<Longrightarrow> show_nat n = show_nat (n div 10) @ [''0123456789'' ! (n mod 10)]"
  by (subst show_nat.simps) simp

lemma join_Cons: "join (x # xs) = x @ concat (map (\<lambda>y. '','' @ y) xs)"
  by (induction xs arbitrary: x) simp_all

lemma join_snoc: "concat (map (\<lambda>y. y @ '','') ys) @ z = join (ys @ [z])"
proof (induction ys)
  case Nil
  show ?case by simp
next
  case (Cons y ys)
  then show ?case by (cases ys) simp_all
qed

lemma events_loop_False:
  "events_loop fmt xs False = concat (map (\<lambda>x. '','' @ fmt x) xs)"
  by (induction xs) simp_all

lemma events_loop_True: "events_loop fmt xs True = join (map fmt xs)"
  by (cases xs) (simp_all add: events_loop_False join_Cons comp_def)

lemma pmax_loop_values:
  "pmax_loop fmt k x dt = concat (map (\<lambda>v. fmt v @ '','') (pmax_values k x dt))"
  by (induction k arbitrary: x) simp_all

lemma pmax_values_closed_form:
  "pmax_values k x dt = map (\<lambda>i. x + real i * dt) [0 ..< k]"
proof (induction k arbitrary: x)
  case 0
  show ?case by simp
next
  case (Suc k)
  have "[0 ..< Suc k] = 0 # map Suc [0 ..< k]"
    by (simp add: upt_conv_Cons map_Suc_upt del: upt_Suc)
  then show ?case
    using Suc.IH[of "x + dt"] by (simp add: comp_def algebra_simps del: upt_Suc)
qed

lemma cnts_loop_take:
  "i + k \<le> length b \<Longrightarrow>
     cnts_loop b i k = Some (concat (map (\<lambda>c. show_nat c @ '','') (take k (drop i b))))"
proof (induction k arbitrary: i)
  case 0
  show ?case by simp
next
  case (Suc k)
  then have i: "i < length b" and s: "Suc i + k \<le> length b" by simp_all
  have "take (Suc k) (drop i b) = b ! i # take k (drop (Suc i) b)"
    using i by (simp add: Cons_nth_drop_Suc [symmetric])
  then show ?case using Suc.IH[OF s] i by simp
qed

lemma sorted_pmax_values: "0 \<le> dt \<Longrightarrow> sorted (pmax_values k x dt)"
  unfolding pmax_values_closed_form
  by (auto simp: sorted_iff_nth_mono intro!: mult_right_mono)

lemma ToDebugJSON_events:
  \<open>mode h \<noteq> HISTOGRAM \<Longrightarrow> ToDebugJSON fmt h = Some (spec_events_json fmt (samples h))\<close>
  by (simp add: ToDebugJSON_def spec_events_json_def events_loop_True)

lemma ToDebugJSON_buckets:
  assumes "mode h = HISTOGRAM" and len: "length (buckets h) = nat (num_buckets h)"
  shows "ToDebugJSON fmt h = Some (spec_buckets_json fmt h)"
proof -
  let ?k = "nat (num_buckets h - 1)"
  have c: "cnts_loop (buckets h) 0 ?k
      = Some (concat (map (\<lambda>c. show_nat c @ '','') (take ?k (buckets h))))"
    using cnts_loop_take[of 0 ?k "buckets h"] len by simp
  have p: "pmax_loop fmt ?k (start_ms h) (bucket_dt_ms h) @ ''99999''
      = join (map fmt (spec_bounds h) @ [''99999''])"
    by (simp add: pmax_loop_values pmax_values_closed_form spec_bounds_def
        join_snoc [symmetric] comp_def)
  have n: "concat (map (\<lambda>c. show_nat c @ '','') (take ?k (buckets h)))
          @ (if num_buckets h > 0 then show_nat (last (buckets h)) else [])
      = join (map show_nat (buckets h))"
  proof (cases "num_buckets h > 0")
    case True
    then have ne: "buckets h \<noteq> []" using len by auto
    have "take ?k (buckets h) = butlast (buckets h)"
      using len True by (simp add: butlast_conv_take nat_diff_distrib)
    then have "concat (map (\<lambda>c. show_nat c @ '','') (take ?k (buckets h)))
          @ show_nat (last (buckets h))
        = join (map show_nat (butlast (buckets h)) @ [show_nat (last (buckets h))])"
      by (simp add: join_snoc [symmetric] comp_def)
    also have "\<dots> = join (map show_nat (butlast (buckets h) @ [last (buckets h)]))"
      by simp
    finally show ?thesis using True ne by simp
  next
    case False
    then show ?thesis using len by simp
  qed
  have g: "\<not> (num_buckets h > 0 \<and> buckets h = [])" using len by auto
  show ?thesis
    unfolding ToDebugJSON_def spec_buckets_json_def
    using assms(1) c g p n by (simp del: append_assoc add: append_assoc [symmetric])
qed

lemma buckets_length_invariant:
  "length (buckets (Histogram c s e nbb nv)) = nat (num_buckets (Histogram c s e nbb nv))"
  "Add c h d = Some h' \<Longrightarrow> length (buckets h) = nat (num_buckets h)
     \<Longrightarrow> length (buckets h') = nat (num_buckets h')"
  "length (buckets h) = nat (num_buckets h)
     \<Longrightarrow> length (buckets (Clear h)) = nat (num_buckets (Clear h))"
  "length (buckets h) = nat (num_buckets h)
     \<Longrightarrow> length (buckets (snd (AddCounts h cs))) = nat (num_buckets (snd (AddCounts h cs)))"
  using Add_preserves_shape(1,2) [of c h d h']
  by (simp_all add: Histogram_def Clear_def AddCounts_def Let_def)

text \<open>
  Claim C7. \<open>ToDebugJSON\<close> gives \<open>{"events":[...]}\<close> with the raw sample buffer when the
  mode is not HISTOGRAM, and otherwise \<open>{"pmax":[...],"cnts":[...]}\<close>, where \<open>pmax\<close> holds
  the \<open>num_buckets - 1\<close> values \<open>start\<close>, \<open>start + bucket_width\<close>, ... followed by the
  literal 99999 and \<open>cnts\<close> holds all bucket counts in order. The values ascend when the
  bucket width is not negative: the constructor accepts \<open>end < start\<close> (it only logs an
  error), and the values then descend. \<open>fmt\<close> stands for the stream's formatting of a
  sample (fixed notation, two decimals).
\<close>

theorem ToDebugJSON_format:
  "(mode h \<noteq> HISTOGRAM \<longrightarrow> ToDebugJSON fmt h = Some (spec_events_json fmt (samples h)))
   \<and> (mode h = HISTOGRAM \<and> length (buckets h) = nat (num_buckets h) \<longrightarrow>
        ToDebugJSON fmt h = Some (spec_buckets_json fmt h)
        \<and> length (spec_bounds h) = nat (num_buckets h - 1)
        \<and> (0 \<le> bucket_dt_ms h \<longrightarrow> sorted (spec_bounds h)))"
proof -
  have "0 \<le> bucket_dt_ms h \<longrightarrow> sorted (spec_bounds h)"
    using sorted_pmax_values [of "bucket_dt_ms h" "nat (num_buckets h - 1)" "start_ms h"]
    by (simp add: pmax_values_closed_form spec_bounds_def)
  moreover have "length (spec_bounds h) = nat (num_buckets h - 1)"
    by (simp add: spec_bounds_def)
  ultimately show ?thesis
    using ToDebugJSON_events [of h fmt] ToDebugJSON_buckets [of h fmt] by blast
qed

theorem ToDebugJSON_format_witness:
  \<open>mode (Histogram example_consts 0 20 5 False) = HISTOGRAM
   \<and> length (buckets (Histogram example_consts 0 20 5 False))
       = nat (num_buckets (Histogram example_consts 0 20 5 False))
   \<and> 0 \<le> bucket_dt_ms (Histogram example_consts 0 20 5 False)
   \<and> ToDebugJSON (\<lambda>x. show_nat (nat \<lfloor>x\<rfloor>)) (Histogram example_consts 0 20 5 False)
       = Some (spec_buckets_json (\<lambda>x. show_nat (nat \<lfloor>x\<rfloor>))
                 (Histogram example_consts 0 20 5 False))
   \<and> spec_buckets_json (\<lambda>x. show_nat (nat \<lfloor>x\<rfloor>)) (Histogram example_consts 0 20 5 False)
       = ''{"pmax":[0,4,8,12,16,20,99999],"cnts":[0,0,0,0,0,0,0]}''
   \<and> sorted (spec_bounds (Histogram example_consts 0 20 5 False))
   \<and> mode (Histogram example_consts 0 0 1 True) \<noteq> HISTOGRAM
   \<and> ToDebugJSON (\<lambda>x. show_nat (nat \<lfloor>x\<rfloor>)) (Histogram example_consts 0 0 1 True)
       = Some ''{"events":[0,0,0]}''\<close>
proof -
  let ?fmt = "\<lambda>x::real. show_nat (nat \<lfloor>x\<rfloor>)"
  let ?A = "Histogram example_consts 0 20 5 False"
  let ?E = "Histogram example_consts 0 0 1 True"
  have pre: "mode ?A = HISTOGRAM" "length (buckets ?A) = nat (num_buckets ?A)"
    "0 \<le> bucket_dt_ms ?A" "mode ?E \<noteq> HISTOGRAM"
    by (simp_all add: hist_ctor)
  have bounds: "spec_bounds ?A = [0, 4, 8, 12, 16, 20]"
    by (simp add: spec_bounds_def hist_ctor upt_conv_Cons)
  have shown: "map ?fmt [0, 4, 8, 12, 16, 20] = [''0'', ''4'', ''8'', ''12'', ''16'', ''20'']"
    by (simp add: show_nat_small show_nat_large)
  have zeros: "buckets ?A = [0, 0, 0, 0, 0, 0, 0]"
    by (simp add: hist_ctor eval_nat_numeral)
  have js: \<open>spec_buckets_json ?fmt ?A
      = ''{"pmax":[0,4,8,12,16,20,99999],"cnts":[0,0,0,0,0,0,0]}''\<close>
    unfolding spec_buckets_json_def bounds shown zeros by (simp add: show_nat_small)
  have ev: \<open>spec_events_json ?fmt (samples ?E) = ''{"events":[0,0,0]}''\<close>
    by (simp add: spec_events_json_def hist_ctor eval_nat_numeral show_nat_small)
  note a = ToDebugJSON_format [of ?A ?fmt]
  note e = ToDebugJSON_format [of ?E ?fmt]
  have 1: "ToDebugJSON ?fmt ?A = Some (spec_buckets_json ?fmt ?A)" using a pre by blast
  have 2: "sorted (spec_bounds ?A)" using a pre by blast
  have 3: \<open>ToDebugJSON ?fmt ?E = Some ''{"events":[0,0,0]}''\<close> using e pre ev by simp
  show ?thesis
    using pre 1 js 2 3 by (intro conjI) (simp_all only: not_False_eq_True)
qed

theorem ToDebugJSON_bounds_descend_counterexample:
  \<open>mode (Histogram example_consts 20 0 5 False) = HISTOGRAM
   \<and> pmax_values (nat (num_buckets (Histogram example_consts 20 0 5 False) - 1))
        (start_ms (Histogram example_consts 20 0 5 False))
        (bucket_dt_ms (Histogram example_consts 20 0 5 False))
       = [20, 16, 12, 8, 4, 0]
   \<and> \<not> sorted (pmax_values (nat (num_buckets (Histogram example_consts 20 0 5 False) - 1))
        (start_ms (Histogram example_consts 20 0 5 False))
        (bucket_dt_ms (Histogram example_consts 20 0 5 False)))
   \<and> (\<forall>fmt. ToDebugJSON fmt (Histogram example_consts 20 0 5 False)
         = Some (''{"pmax":['' @ fmt 20 @ '','' @ fmt 16 @ '','' @ fmt 12 @ '','' @ fmt 8 @ '',''
                 @ fmt 4 @ '','' @ fmt 0 @ '','' @ ''99999],"cnts":[0,0,0,0,0,0,0]}''))\<close>
  by (simp add: ToDebugJSON_def hist_ctor eval_nat_numeral show_nat_small)

subsection \<open>Construction\<close>

text \<open>
  Claim C10. When \<open>num_buckets_between \<le> 0\<close> the bucket width is obtained by dividing
  by 1 and the number of buckets is \<open>kDefaultNumBuckets\<close> rather than
  \<open>num_buckets_between + 2\<close>; the divisor is never zero. The mode is EVENTS_ONLY exactly
  when \<open>never_bucket\<close> is set, otherwise AUTO_RANGE exactly when both bounds are zero,
  otherwise HISTOGRAM.
\<close>

theorem constructor_divisor_and_mode:
  "bucket_divisor nbb \<noteq> 0
   \<and> bucket_dt_ms (Histogram c s e nbb nv) = (e - s) / real_of_int (bucket_divisor nbb)
   \<and> (nbb \<le> 0 \<longrightarrow>
         bucket_divisor nbb = 1
         \<and> bucket_dt_ms (Histogram c s e nbb nv) = e - s
         \<and> num_buckets (Histogram c s e nbb nv) = int (kDefaultNumBuckets c))
   \<and> (0 < nbb \<longrightarrow>
         bucket_divisor nbb = nbb \<and> num_buckets (Histogram c s e nbb nv) = nbb + 2)
   \<and> (mode (Histogram c s e nbb nv) = EVENTS_ONLY \<longleftrightarrow> nv)
   \<and> (mode (Histogram c s e nbb nv) = AUTO_RANGE \<longleftrightarrow> \<not> nv \<and> s = 0 \<and> e = 0)
   \<and> (mode (Histogram c s e nbb nv) = HISTOGRAM \<longleftrightarrow> \<not> nv \<and> \<not> (s = 0 \<and> e = 0))"
  by (simp add: Histogram_def bucket_divisor_def initial_mode_def initial_num_buckets_def
      Let_def)

theorem constructor_divisor_and_mode_witness:
  "(0::int) \<le> 0 \<and> bucket_divisor 0 = 1
   \<and> bucket_dt_ms (Histogram example_consts 0 0 0 False) = 0
   \<and> num_buckets (Histogram example_consts 0 0 0 False) = 200
   \<and> mode (Histogram example_consts 0 0 0 False) = AUTO_RANGE"
  using constructor_divisor_and_mode [of 0 example_consts 0 0 False]
  by (simp add: example_consts_def)

section \<open>Properties of SwappyVk::QueuePresent\<close>

lemma QueuePresent_unknown_queue:
  "map_of (perQueueFamilyIndex s) queue = None \<Longrightarrow>
     QueuePresent f s queue info = Some (VK_INCOMPLETE, s)"
  by (simp add: QueuePresent_def)

lemma map_of_subscript:
  "map_of (subscript m k dflt) k = (case map_of m k of None \<Rightarrow> Some dflt | Some v \<Rightarrow> Some v)"
  "k' \<noteq> k \<Longrightarrow> map_of (subscript m k dflt) k' = map_of m k'"
  by (auto simp: subscript_def map_add_def split: option.splits)

lemma QueuePresent_no_implementation:
  assumes "map_of (perQueueFamilyIndex s) queue = Some qfi"
    and "pSwapchains info = Some (sc # scs)" and "swapchainCount info \<noteq> 0"
    and "map_of (perSwapchainImplementation s) sc = None
         \<or> map_of (perSwapchainImplementation s) sc = Some None"
  shows "QueuePresent f s queue info
     = Some (VK_ERROR_DEVICE_LOST,
             s\<lparr>perSwapchainImplementation := subscript (perSwapchainImplementation s) sc None\<rparr>)"
  using assms by (auto simp: QueuePresent_def map_of_subscript Let_def)

text \<open>
  Claim C8. \<open>QueuePresent\<close> with a queue that was never registered, or with a swapchain
  that has no implementation, does no present work, returns a result other than success,
  does not crash and leaves the state unchanged. The code returns \<open>VK_INCOMPLETE\<close> for the
  unknown queue and changes nothing; for the swapchain it returns \<open>VK_ERROR_DEVICE_LOST\<close>
  without calling the implementation, but \<open>operator[]\<close> has by then added a null entry for
  the swapchain to \<open>perSwapchainImplementation\<close>, which \<open>DestroyDevice\<close> later
  dereferences.
\<close>

theorem QueuePresent_plants_null_entry:
  "QueuePresent (\<lambda>impl q idx info. (VK_SUCCESS, impl))
      (SetQueueFamilyIndex (SwappyVk_initial :: nat SwappyVk) 1 7 0) 7
      \<lparr>swapchainCount = 1, pSwapchains = Some [42]\<rparr>
    = Some (VK_ERROR_DEVICE_LOST,
            \<lparr>perQueueFamilyIndex = [(7, \<lparr>device = 1, queueFamilyIndex = 0\<rparr>)],
             perSwapchainImplementation = [(42, None)]\<rparr>)
   \<and> perSwapchainImplementation (SetQueueFamilyIndex (SwappyVk_initial :: nat SwappyVk) 1 7 0)
       = []
   \<and> DestroyDevice (\<lambda>impl. impl) (SetQueueFamilyIndex (SwappyVk_initial :: nat SwappyVk) 1 7 0) 1
       = Some SwappyVk_initial
   \<and> DestroyDevice (\<lambda>impl. impl)
        \<lparr>perQueueFamilyIndex = [(7, \<lparr>device = 1, queueFamilyIndex = 0\<rparr>)],
         perSwapchainImplementation = [(42, None :: nat option)]\<rparr> 1
       = None"
  by (simp add: QueuePresent_def SetQueueFamilyIndex_def SwappyVk_initial_def subscript_def
      DestroyDevice_def VK_ERROR_DEVICE_LOST_def)

section \<open>Properties of SwappyGL::swap\<close>

text \<open>
  Claim C9. While the scheduler is Disabled (construction failure, or pacing disabled),
  \<open>SwappyGL::swap\<close> bypasses the pacing logic and calls the platform's \<open>swapBuffers\<close>,
  returning its success. In the code the passthrough is taken when \<open>enabled()\<close> is false
  (and the EGL functions were loaded); \<open>enableFramePacing(false)\<close> does not change
  \<open>enabled()\<close>, and \<open>swap\<close> then still runs \<open>swapInternal\<close>.
\<close>

theorem swap_passthrough_when_not_enabled:
  "(\<not> enabled sw \<and> mEgl sw \<longrightarrow>
      SwappyGL_swap p (Some sw) = Some (swapBuffers_returns_EGL_TRUE p, [SwapBuffers]))
   \<and> (enabled sw \<longrightarrow>
      SwappyGL_swap p (enableFramePacing (Some sw) enable) = swapInternal p sw
      \<and> SwappyGL_swap p (Some sw) = swapInternal p sw)"
  by (simp add: SwappyGL_swap_def enabled_def enableFramePacing_def swapInternal_def)

theorem swap_passthrough_when_not_enabled_witness:
  "\<not> enabled (SwappyGL_ctor True False False) \<and> mEgl (SwappyGL_ctor True False False)
   \<and> SwappyGL_init None True False False = (False, Some (SwappyGL_ctor True False False))
   \<and> SwappyGL_swap \<lparr>swapBuffers_returns_EGL_TRUE = True, needToSetPresentationTime = True,
             tooCloseToVsync = False, eglSetPresentationTime_result = False\<rparr>
        (Some (SwappyGL_ctor True False False)) = Some (True, [SwapBuffers])
   \<and> enabled (SwappyGL_ctor True True False)
   \<and> SwappyGL_swap \<lparr>swapBuffers_returns_EGL_TRUE = True, needToSetPresentationTime = False,
             tooCloseToVsync = False, eglSetPresentationTime_result = False\<rparr>
        (enableFramePacing (Some (SwappyGL_ctor True True False)) False)
       = Some (True, [InsertSyncFence, OnPreSwap, SwapBuffers, OnPostSwap])"
  using swap_passthrough_when_not_enabled
      [of "SwappyGL_ctor True False False"
          "\<lparr>swapBuffers_returns_EGL_TRUE = True, needToSetPresentationTime = True,
             tooCloseToVsync = False, eglSetPresentationTime_result = False\<rparr>"]
    swap_passthrough_when_not_enabled
      [of "SwappyGL_ctor True True False"
          "\<lparr>swapBuffers_returns_EGL_TRUE = True, needToSetPresentationTime = False,
             tooCloseToVsync = False, eglSetPresentationTime_result = False\<rparr>" False]
  by (simp add: swappy_eval)

theorem swap_with_frame_pacing_disabled_counterexample:
  "SwappyGL_init None True True False = (True, Some (SwappyGL_ctor True True False))
   \<and> (\<exists>sw. enableFramePacing (Some (SwappyGL_ctor True True False)) False = Some sw
         \<and> spec_Disabled sw
         \<and> SwappyGL_swap \<lparr>swapBuffers_returns_EGL_TRUE = True, needToSetPresentationTime = False,
                   tooCloseToVsync = False, eglSetPresentationTime_result = False\<rparr>
              (Some sw) = Some (True, [InsertSyncFence, OnPreSwap, SwapBuffers, OnPostSwap]))"
  by (simp add: swappy_eval)

lemma swap_without_EGL:
  "SwappyGL_init None False cv dp = (False, Some (SwappyGL_ctor False cv dp))
   \<and> spec_Disabled (SwappyGL_ctor False cv dp)
   \<and> SwappyGL_swap p (Some (SwappyGL_ctor False cv dp)) = None"
  by (simp add: swappy_eval)

end
